theory Spec2Isabelle
  imports Complex_Main "HOL-Library.Multiset"
begin

section \<open>Text primitives used by the section parser\<close>

text \<open>
  The document is a Python \<open>str\<close>. It is modelled as a HOL \<open>string\<close> holding
  ASCII text: the three string methods the parser calls (\<open>splitlines\<close>, \<open>strip\<close>,
  \<open>lower\<close>) are given their behaviour on the ASCII range, and a character outside
  that range is neither white space, nor a line boundary, nor changed by \<open>lower\<close>.
\<close>

definition is_space :: "char \<Rightarrow> bool" where
  \<comment> \<open>\<open>str.isspace\<close> on ASCII: HT, LF, VT, FF, CR, FS, GS, RS, US and the blank.\<close>
  "is_space c = (of_char c \<in> set [9, 10, 11, 12, 13, 28, 29, 30, 31, 32 :: nat])"

definition is_linebreak :: "char \<Rightarrow> bool" where
  \<comment> \<open>the ASCII line boundaries of \<open>str.splitlines\<close> other than CR: LF, VT, FF, FS, GS, RS.\<close>
  "is_linebreak c = (of_char c \<in> set [10, 11, 12, 28, 29, 30 :: nat])"

definition strip :: "string \<Rightarrow> string" where
  \<comment> \<open>\<open>s.strip()\<close>: white space removed from both ends.\<close>
  "strip s = rev (dropWhile is_space (rev (dropWhile is_space s)))"

definition lower_char :: "char \<Rightarrow> char" where
  "lower_char c = (let n = (of_char c :: nat) in if 65 \<le> n \<and> n \<le> 90 then char_of (n + 32) else c)"

definition lower :: "string \<Rightarrow> string" where
  \<comment> \<open>\<open>s.lower()\<close>\<close>
  "lower s = map lower_char s"

fun splitlines_from :: "string \<Rightarrow> string \<Rightarrow> string list" where
  \<comment> \<open>\<open>splitlines_from cur s\<close>: the lines of \<open>s\<close>, the first one prefixed by the
      characters \<open>cur\<close> already read. CR LF is one boundary; a boundary at the very end
      opens no further line.\<close>
  "splitlines_from cur [] = (if cur = [] then [] else [cur])"
| "splitlines_from cur [c] =
     (if of_char c = (13::nat) \<or> is_linebreak c then [cur] else [cur @ [c]])"
| "splitlines_from cur (c # d # cs) =
     (if of_char c = (13::nat) then
        (if of_char d = (10::nat) then cur # splitlines_from [] cs
         else cur # splitlines_from [] (d # cs))
      else if is_linebreak c then cur # splitlines_from [] (d # cs)
      else splitlines_from (cur @ [c]) (d # cs))"

definition splitlines :: "string \<Rightarrow> string list" where
  \<comment> \<open>\<open>s.splitlines()\<close>\<close>
  "splitlines s = splitlines_from [] s"

fun join_nl :: "string list \<Rightarrow> string" where
  \<comment> \<open>\<open>"\n".join(v)\<close>\<close>
  "join_nl [] = []"
| "join_nl [l] = l"
| "join_nl (l # m # ls) = l @ CHR 0x0A # join_nl (m # ls)"

fun startswith :: "string \<Rightarrow> string \<Rightarrow> bool" where
  \<comment> \<open>\<open>startswith p s\<close>: \<open>p\<close> is a prefix of \<open>s\<close>.\<close>
  "startswith [] s = True"
| "startswith (a # p) [] = False"
| "startswith (a # p) (c # s) = (a = c \<and> startswith p s)"

fun occurs_in :: "string \<Rightarrow> string \<Rightarrow> bool" where
  \<comment> \<open>\<open>occurs_in p s\<close>: the literal \<open>p\<close> occurs somewhere in \<open>s\<close>.\<close>
  "occurs_in p [] = (p = [])"
| "occurs_in p (c # s) = (startswith p (c # s) \<or> occurs_in p s)"

definition re_search :: "string list \<Rightarrow> string \<Rightarrow> bool" where
  \<comment> \<open>\<open>re.search(pat, s)\<close> for a pattern \<open>(a1|a2|...)\<close> whose alternatives are literals
      without metacharacters (every pattern of the parser is one): the search succeeds
      iff one of the alternatives occurs in \<open>s\<close>. The pattern is given by the list of
      its alternatives.\<close>
  "re_search alts s = list_ex (\<lambda>a. occurs_in a s) alts"

section \<open>ResumeParser\<close>

definition SECTION_PATTERNS :: "(string \<times> string list) list" where
  \<comment> \<open>the class attribute, a dict: its entries in insertion order, which is the order
      \<open>.items()\<close> and \<open>.keys()\<close> iterate in.\<close>
  "SECTION_PATTERNS =
    [(''experience'', [''experience'', ''work history'', ''employment'']),
     (''education'', [''education'', ''academic background'']),
     (''skills'', [''skills'', ''technical skills'', ''abilities'']),
     (''projects'', [''projects'', ''personal projects'', ''academic projects'']),
     (''leadership & awards'', [''leadership'', ''awards'', ''honors'', ''scholarship''])]"

type_synonym sections = "(string \<times> string list) list"
type_synonym parser_state = "string option \<times> sections"

fun first_match :: "(string \<times> string list) list \<Rightarrow> string \<Rightarrow> string option" where
  \<comment> \<open>the inner \<open>for key, pat in ...items()\<close> loop: \<open>Some key\<close> when it leaves by
      \<open>break\<close>, \<open>None\<close> when it runs to its \<open>else\<close> clause.\<close>
  "first_match [] s = None"
| "first_match ((key, pat) # rest) s =
     (if re_search pat s then Some key else first_match rest s)"

definition append_line :: "sections \<Rightarrow> string \<Rightarrow> string \<Rightarrow> sections" where
  \<comment> \<open>\<open>sections[current_section].append(clean_line)\<close>; the entries keep their order.\<close>
  "append_line secs c l = map (\<lambda>(k, v). if k = c then (k, v @ [l]) else (k, v)) secs"

definition parse_line :: "parser_state \<Rightarrow> string \<Rightarrow> parser_state" where
  \<comment> \<open>one turn of the \<open>for line in ...\<close> loop of \<open>parse\<close>. The test
      \<open>if current_section:\<close> is Python truthiness: neither \<open>None\<close> nor the empty string.\<close>
  "parse_line st line =
     (let current_section = fst st; secs = snd st; clean_line = strip line in
      if clean_line = [] then st
      else case first_match SECTION_PATTERNS (lower clean_line) of
             Some key \<Rightarrow> (Some key, secs)
           | None \<Rightarrow>
               (case current_section of
                  None \<Rightarrow> st
                | Some c \<Rightarrow> if c = [] then st else (current_section, append_line secs c clean_line)))"

definition init_sections :: sections where
  \<comment> \<open>\<open>{key: [] for key in self.SECTION_PATTERNS.keys()}\<close>\<close>
  "init_sections = map (\<lambda>(k, p). (k, [])) SECTION_PATTERNS"

definition parse_loop :: "parser_state \<Rightarrow> string list \<Rightarrow> parser_state" where
  "parse_loop st ls = foldl parse_line st ls"

definition parse :: "string \<Rightarrow> (string \<times> string) list" where
  \<comment> \<open>\<open>ResumeParser(resume_text).parse()\<close>: the returned dict (also stored in
      \<open>self.parsed_sections\<close>), as its entries in insertion order.\<close>
  "parse resume_text =
     (let secs = snd (parse_loop (None, init_sections) (splitlines resume_text)) in
      map (\<lambda>(k, v). (k, strip (join_nl v))) (filter (\<lambda>(k, v). v \<noteq> []) secs))"

section \<open>Cosine similarity\<close>

text \<open>
  Vectors are Python lists of floats. Floating-point numbers are idealised as real
  numbers throughout: rounding, overflow and \<open>nan\<close> have no counterpart here.
\<close>

type_synonym vec = "real list"

datatype error =
    KeyError string  \<comment> \<open>a dict subscript with a key the dict lacks\<close>
  | ValueError       \<comment> \<open>vectors of different lengths\<close>
  | NotANumber       \<comment> \<open>a vector of magnitude zero: the quotient is undefined\<close>

definition dot :: "vec \<Rightarrow> vec \<Rightarrow> real" where
  "dot u v = sum_list (map2 (*) u v)"

text \<open>
  Modelled from the spec: \<open>scipy.spatial.distance.cosine\<close>, the library function that
  \<open>cosine_similarity\<close> calls, is not among the sources. The spec (section 4.3) gives
  the similarity, which the code computes as \<open>1 - cosine(vec1, vec2)\<close>, as the dot
  product of the two vectors divided by the product of their magnitudes, for two
  non-zero vectors of equal length; on a vector of magnitude zero the result is
  undefined, and vectors of different dimension are a failure. So the distance
  \<open>cosine\<close> is one minus that quotient, with the two remaining cases as errors.
  For a vector of magnitude zero floating-point arithmetic would give \<open>nan\<close> and go
  on; no real number stands for it, so the model ends the call with \<open>NotANumber\<close>,
  and nothing below is about a ranking that holds a \<open>nan\<close>.
\<close>

definition cosine :: "vec \<Rightarrow> vec \<Rightarrow> error + real" where
  "cosine u v =
     (if length u \<noteq> length v then Inl ValueError
      else if sqrt (dot u u) * sqrt (dot v v) = 0 then Inl NotANumber
      else Inr (1 - dot u v / (sqrt (dot u u) * sqrt (dot v v))))"

definition cosine_similarity :: "vec \<Rightarrow> vec \<Rightarrow> error + real" where
  \<comment> \<open>\<open>return 1 - cosine(vec1, vec2)\<close>\<close>
  "cosine_similarity vec1 vec2 =
     (case cosine vec1 vec2 of Inl e \<Rightarrow> Inl e | Inr d \<Rightarrow> Inr (1 - d))"

section \<open>Candidate records, the object store and the outside world\<close>

text \<open>
  A candidate is a Python dict. Its text fields are a map from field name to text,
  and the entry \<open>similarity_score\<close>, the only one \<open>rank_jobs\<close> writes, is
  kept apart as an optional number (\<open>None\<close>: the dict has no such key).
  The list \<open>jobs\<close> holds references to dicts, so a dict is an address in a store
  and the list is a list of addresses: writing a score changes the store, and
  the same dict may occur in the list more than once.
\<close>

record job =
  text_fields :: "string \<rightharpoonup> string"
  similarity_score :: "real option"

type_synonym ref = nat
type_synonym store = "ref \<Rightarrow> job"

datatype message =
    NoJobsToRank             \<comment> \<open>\<open>print("No jobs to rank.")\<close>\<close>
  | NoJobsToSave string      \<comment> \<open>\<open>print(f"No jobs to save to {filename}.")\<close>\<close>
  | SavedJobs nat string     \<comment> \<open>\<open>print(f"Saved {len(jobs)} jobs to {filename}")\<close>\<close>

record world =
  heap :: store                           \<comment> \<open>the candidate dicts\<close>
  files :: "string \<rightharpoonup> job list"          \<comment> \<open>the CSV files: file name to the rows written\<close>
  printed :: "message list"               \<comment> \<open>standard output\<close>
  batch_calls :: "string list list"       \<comment> \<open>the arguments of every \<open>get_embeddings_batch\<close> call made\<close>

type_synonym provider = "string list \<Rightarrow> vec list"
  \<comment> \<open>the \<open>get_embeddings_batch\<close> method of an \<open>IEmbeddingService\<close>\<close>

definition MockEmbeddingService :: provider where
  \<comment> \<open>the mock of the tests: the vector \<open>[1.0, 0.0, 0.0]\<close> for every text\<close>
  "MockEmbeddingService texts = map (\<lambda>_. [1, 0, 0]) texts"

section \<open>JobCSVHandler.save_jobs\<close>

definition save_jobs :: "job list \<Rightarrow> string \<Rightarrow> world \<Rightarrow> world" where
  \<comment> \<open>\<open>pd.DataFrame(jobs).to_csv(filename, index=False)\<close> replaces the file by one row
      per record; an empty list writes nothing.\<close>
  "save_jobs rows filename w =
     (if rows = [] then w\<lparr>printed := printed w @ [NoJobsToSave filename]\<rparr>
      else w\<lparr>files := (files w)(filename \<mapsto> rows),
             printed := printed w @ [SavedJobs (length rows) filename]\<rparr>)"

section \<open>rank\_jobs\<close>

definition job_text :: "job \<Rightarrow> error + string" where
  \<comment> \<open>\<open>f"{job['title']} {job['company']} {job['description']}"\<close>: the subscripts are
      evaluated left to right, and the first missing key raises.\<close>
  "job_text j =
     (case text_fields j ''title'' of
        None \<Rightarrow> Inl (KeyError ''title'')
      | Some t \<Rightarrow>
          (case text_fields j ''company'' of
             None \<Rightarrow> Inl (KeyError ''company'')
           | Some c \<Rightarrow>
               (case text_fields j ''description'' of
                  None \<Rightarrow> Inl (KeyError ''description'')
                | Some d \<Rightarrow> Inr (t @ '' '' @ c @ '' '' @ d))))"

fun build_job_texts :: "store \<Rightarrow> ref list \<Rightarrow> error + string list" where
  \<comment> \<open>the list comprehension \<open>job_texts = [f"..." for job in jobs]\<close>\<close>
  "build_job_texts h [] = Inr []"
| "build_job_texts h (j # js) =
     (case job_text (h j) of
        Inl e \<Rightarrow> Inl e
      | Inr t \<Rightarrow> (case build_job_texts h js of Inl e \<Rightarrow> Inl e | Inr ts \<Rightarrow> Inr (t # ts)))"

fun score_jobs :: "vec \<Rightarrow> (ref \<times> vec) list \<Rightarrow> store \<Rightarrow> store \<times> error option" where
  \<comment> \<open>\<open>for job, emb in zip(jobs, job_embeddings): job["similarity_score"] = ...\<close>,
      run over the pairs that \<open>zip\<close> yields; an error leaves the scores written so far.\<close>
  "score_jobs resume_embedding [] h = (h, None)"
| "score_jobs resume_embedding ((j, emb) # rest) h =
     (case cosine_similarity resume_embedding emb of
        Inl e \<Rightarrow> (h, Some e)
      | Inr s \<Rightarrow> score_jobs resume_embedding rest (h(j := (h j)\<lparr>similarity_score := Some s\<rparr>)))"

definition sorted_reverse :: "('a \<Rightarrow> real) \<Rightarrow> 'a list \<Rightarrow> 'a list" where
  \<comment> \<open>\<open>sorted(xs, key=key, reverse=True)\<close> on keys that are numbers: Python's sort is
      stable also when reversed, so this is the stable sort by the negated key.\<close>
  "sorted_reverse key xs = sort_key (\<lambda>x. - key x) xs"

definition sorted_by_score :: "store \<Rightarrow> ref list \<Rightarrow> error + ref list" where
  \<comment> \<open>\<open>sorted(jobs, key=lambda x: x["similarity_score"], reverse=True)\<close>: the key
      function runs on every element first and raises on a dict without a score.\<close>
  "sorted_by_score h js =
     (if list_ex (\<lambda>j. similarity_score (h j) = None) js
      then Inl (KeyError ''similarity_score'')
      else Inr (sorted_reverse (\<lambda>j. the (similarity_score (h j))) js))"

definition slice_to :: "'a list \<Rightarrow> int \<Rightarrow> 'a list" where
  \<comment> \<open>\<open>xs[:n]\<close>: a negative \<open>n\<close> counts from the end.\<close>
  "slice_to xs n = (if n < 0 then take (length xs - nat (- n)) xs else take (nat n) xs)"

definition rank_jobs ::
  "provider \<Rightarrow> vec \<Rightarrow> ref list \<Rightarrow> int \<Rightarrow> provider option \<Rightarrow> string \<Rightarrow> world
     \<Rightarrow> world \<times> (error + ref list)" where
  \<comment> \<open>\<open>rank_jobs(resume_embedding, jobs, top_n, embedding_service, output_csv)\<close>, run in
      the world \<open>w\<close>: the world it leaves and what it returns or raises. The first
      argument is the batch method of \<open>HFEmbeddingService()\<close>, which the function builds
      when \<open>embedding_service\<close> is \<open>None\<close>.\<close>
  "rank_jobs hf resume_embedding jobs top_n embedding_service output_csv w =
     (if jobs = [] then (w\<lparr>printed := printed w @ [NoJobsToRank]\<rparr>, Inr [])
      else
        (case build_job_texts (heap w) jobs of
           Inl e \<Rightarrow> (w, Inl e)
         | Inr texts \<Rightarrow>
             (let service = (case embedding_service of None \<Rightarrow> hf | Some s \<Rightarrow> s);
                  w1 = w\<lparr>batch_calls := batch_calls w @ [texts]\<rparr>;
                  job_embeddings = service texts
              in (case score_jobs resume_embedding (zip jobs job_embeddings) (heap w1) of
                    (h, Some e) \<Rightarrow> (w1\<lparr>heap := h\<rparr>, Inl e)
                  | (h, None) \<Rightarrow>
                      (case sorted_by_score h jobs of
                         Inl e \<Rightarrow> (w1\<lparr>heap := h\<rparr>, Inl e)
                       | Inr ranked_jobs \<Rightarrow>
                           (save_jobs (map h (slice_to ranked_jobs top_n)) output_csv
                              (w1\<lparr>heap := h\<rparr>),
                            Inr (slice_to ranked_jobs top_n)))))))"

section \<open>The content of a section, stated apart from the loop\<close>

text \<open>
  \<open>section_content k cur ls\<close> follows the words of the specification rather than the
  loop of \<open>parse\<close>: it is the list, in document order, of the trimmed lines among \<open>ls\<close>
  that are content of section \<open>k\<close>, where \<open>cur\<close> is the section active before the
  first of them. A line that is empty after trimming counts for nothing, a heading
  line makes its section the active one and is not content, and any other line is
  content of the section active at that point. It is compared with the accumulators
  of the loop below.
\<close>

fun section_content :: "string \<Rightarrow> string option \<Rightarrow> string list \<Rightarrow> string list" where
  "section_content k cur [] = []"
| "section_content k cur (line # ls) =
     (if strip line = [] then section_content k cur ls
      else case first_match SECTION_PATTERNS (lower (strip line)) of
             Some h \<Rightarrow> section_content k (Some h) ls
           | None \<Rightarrow>
               (if cur = Some k then strip line # section_content k cur ls
                else section_content k cur ls))"

text \<open>A text is trimmed when it is not empty and neither begins nor ends with white space.\<close>

definition trimmed :: "string \<Rightarrow> bool" where
  "trimmed l = (l \<noteq> [] \<and> \<not> is_space (hd l) \<and> \<not> is_space (last l))"

section \<open>Predicates and example inputs for rank\_jobs\<close>

text \<open>
  \<open>has_text_fields j\<close>: the record has the three fields the embedding input is built
  from. \<open>joined_text j\<close>: the three fields in the order title, company, description,
  separated by single blanks.
\<close>

definition has_text_fields :: "job \<Rightarrow> bool" where
  "has_text_fields j =
     (text_fields j ''title'' \<noteq> None \<and> text_fields j ''company'' \<noteq> None
      \<and> text_fields j ''description'' \<noteq> None)"

definition joined_text :: "job \<Rightarrow> string" where
  "joined_text j =
     the (text_fields j ''title'') @ '' '' @ the (text_fields j ''company'') @ '' ''
       @ the (text_fields j ''description'')"

text \<open>
  Example inputs: three complete candidates at the addresses 0, 1 and 2, a candidate
  without \<open>company\<close> at address 9, a complete candidate everywhere else, and no file
  written yet. \<open>example_service\<close> returns three vectors whatever it is given, and
  \<open>short_service\<close> a single one.
\<close>

definition example_job :: "string \<Rightarrow> string \<Rightarrow> string \<Rightarrow> job" where
  "example_job t c d =
     \<lparr>text_fields = [''title'' \<mapsto> t, ''company'' \<mapsto> c, ''description'' \<mapsto> d],
      similarity_score = None\<rparr>"

definition example_world :: world where
  "example_world =
     \<lparr>heap = (\<lambda>_. example_job ''Job4'' ''D'' ''desc4'')
              (0 := example_job ''Job1'' ''A'' ''desc1'',
               1 := example_job ''Job2'' ''B'' ''desc2'',
               2 := example_job ''Job3'' ''C'' ''desc3'',
               9 := \<lparr>text_fields = [''title'' \<mapsto> ''Job9'', ''description'' \<mapsto> ''desc9''],
                      similarity_score = None\<rparr>),
      files = Map.empty, printed = [], batch_calls = []\<rparr>"

definition example_service :: provider where
  "example_service texts = [ [0, 1, 0], [1, 0, 0], [1, 0, 0]]"



section \<open>Properties of the section parser\<close>

text \<open>The literal search is the search for a contiguous occurrence.\<close>

lemma startswith_iff: "startswith p s \<longleftrightarrow> (\<exists>t. s = p @ t)"
  by (induction p s rule: startswith.induct) auto

lemma occurs_in_iff: "occurs_in p s \<longleftrightarrow> (\<exists>a b. s = a @ p @ b)"
proof (induction s)
  case Nil
  show ?case by auto
next
  case (Cons c s)
  show ?case
  proof
    assume "occurs_in p (c # s)"
    then consider "startswith p (c # s)" | "occurs_in p s" by auto
    then show "\<exists>a b. c # s = a @ p @ b"
    proof cases
      case 1
      then obtain t where "c # s = p @ t" by (auto simp: startswith_iff)
      then have "c # s = [] @ p @ t" by simp
      then show ?thesis by blast
    next
      case 2
      with Cons obtain a b where "s = a @ p @ b" by blast
      then have "c # s = (c # a) @ p @ b" by simp
      then show ?thesis by blast
    qed
  next
    assume "\<exists>a b. c # s = a @ p @ b"
    then obtain a b where ab: "c # s = a @ p @ b" by blast
    show "occurs_in p (c # s)"
    proof (cases a)
      case Nil
      with ab have "startswith p (c # s)" by (auto simp: startswith_iff)
      then show ?thesis by simp
    next
      case (Cons d a')
      with ab have "s = a' @ p @ b" by simp
      with Cons.IH have "occurs_in p s" by blast
      then show ?thesis by simp
    qed
  qed
qed

lemma dropWhile_last: "dropWhile P xs \<noteq> [] \<Longrightarrow> last (dropWhile P xs) = last xs"
  by (induction xs) (auto split: if_splits)

lemma strip_trimmed: "strip s \<noteq> [] \<Longrightarrow> trimmed (strip s)"
proof -
  assume ne: "strip s \<noteq> []"
  define t where "t = dropWhile is_space s"
  define u where "u = dropWhile is_space (rev t)"
  have su: "strip s = rev u" by (simp add: strip_def t_def u_def)
  with ne have une: "u \<noteq> []" by simp
  then have tne: "t \<noteq> []" by (auto simp: u_def)
  have "\<not> is_space (hd u)" using une unfolding u_def by (rule hd_dropWhile)
  then have l: "\<not> is_space (last (strip s))" using une by (simp add: su last_rev)
  have "last u = last (rev t)" using une unfolding u_def by (rule dropWhile_last)
  then have "hd (strip s) = hd t" using une tne by (simp add: su hd_rev last_rev)
  moreover have "\<not> is_space (hd t)" using tne unfolding t_def by (rule hd_dropWhile)
  ultimately show ?thesis using ne l by (simp add: trimmed_def)
qed

lemma strip_of_trimmed: "trimmed l \<Longrightarrow> strip l = l"
proof -
  assume t: "trimmed l"
  then obtain c cs where l: "l = c # cs" by (cases l) (auto simp: trimmed_def)
  have 1: "dropWhile is_space l = l" using t l by (simp add: trimmed_def)
  have "rev l \<noteq> []" "\<not> is_space (hd (rev l))" using t by (auto simp: trimmed_def hd_rev)
  then have "dropWhile is_space (rev l) = rev l" by (cases "rev l") auto
  with 1 show ?thesis by (simp add: strip_def)
qed

lemma join_nl_trimmed:
  "v \<noteq> [] \<Longrightarrow> \<forall>l \<in> set v. trimmed l \<Longrightarrow> trimmed (join_nl v)"
proof (induction v rule: join_nl.induct)
  case 1
  then show ?case by simp
next
  case (2 l)
  then show ?case by simp
next
  case (3 l m ls)
  then have "trimmed (join_nl (m # ls))" "trimmed l" by simp_all
  then show ?case by (cases l) (auto simp: trimmed_def)
qed

lemma section_content_trimmed: "\<forall>l \<in> set (section_content k cur ls). trimmed l"
  by (induction k cur ls rule: section_content.induct)
     (auto simp: strip_trimmed split: option.splits)

lemma first_match_key: "first_match ps s = Some k \<Longrightarrow> k \<in> fst ` set ps"
  by (induction ps s rule: first_match.induct) (auto split: if_splits)

lemma SECTION_PATTERNS_keys_nonempty: "k \<in> fst ` set SECTION_PATTERNS \<Longrightarrow> k \<noteq> []"
  by (auto simp: SECTION_PATTERNS_def)

lemma first_match_nonempty: "first_match SECTION_PATTERNS s \<noteq> Some []"
  using first_match_key SECTION_PATTERNS_keys_nonempty by blast

lemma parse_loop_Cons: "parse_loop st (line # ls) = parse_loop (parse_line st line) ls"
  by (simp add: parse_loop_def)

lemma parse_loop_content:
  "cur \<noteq> Some [] \<Longrightarrow>
   snd (parse_loop (cur, secs) ls) = map (\<lambda>(k, v). (k, v @ section_content k cur ls)) secs"
proof (induction ls arbitrary: cur secs)
  case Nil
  show ?case by (simp add: parse_loop_def)
next
  case (Cons line ls)
  show ?case
  proof (cases "strip line = []")
    case True
    then have "parse_line (cur, secs) line = (cur, secs)" by (simp add: parse_line_def)
    with True Cons show ?thesis by (simp add: parse_loop_Cons)
  next
    case False
    show ?thesis
    proof (cases "first_match SECTION_PATTERNS (lower (strip line))")
      case (Some h)
      then have h: "Some h \<noteq> Some []" using first_match_nonempty by metis
      have "parse_line (cur, secs) line = (Some h, secs)"
        using False Some by (simp add: parse_line_def)
      with False Some Cons.IH [OF h] show ?thesis by (simp add: parse_loop_Cons)
    next
      case None
      show ?thesis
      proof (cases cur)
        case cn: None
        then have "parse_line (cur, secs) line = (cur, secs)"
          using False None by (simp add: parse_line_def)
        with False None cn Cons show ?thesis by (simp add: parse_loop_Cons)
      next
        case (Some c)
        with Cons.prems have c: "c \<noteq> []" by simp
        have "parse_line (cur, secs) line = (cur, append_line secs c (strip line))"
          using False None Some c by (simp add: parse_line_def)
        then have "snd (parse_loop (cur, secs) (line # ls))
                     = map (\<lambda>(k, v). (k, v @ section_content k cur ls))
                         (append_line secs c (strip line))"
          using Cons.IH [OF Cons.prems] by (simp add: parse_loop_Cons)
        also have "\<dots> = map (\<lambda>(k, v). (k, v @ section_content k cur (line # ls))) secs"
          using False None Some by (auto simp: append_line_def)
        finally show ?thesis .
      qed
    qed
  qed
qed

lemma parse_eq:
  "parse doc =
     map (\<lambda>k. (k, join_nl (section_content k None (splitlines doc))))
       (filter (\<lambda>k. section_content k None (splitlines doc) \<noteq> []) (map fst SECTION_PATTERNS))"
proof -
  let ?ls = "splitlines doc"
  have strip: "strip (join_nl (section_content k None ?ls)) = join_nl (section_content k None ?ls)"
    if "section_content k None ?ls \<noteq> []" for k
    using that by (simp add: strip_of_trimmed join_nl_trimmed section_content_trimmed)
  have "snd (parse_loop (None, init_sections) ?ls)
          = map (\<lambda>k. (k, section_content k None ?ls)) (map fst SECTION_PATTERNS)"
    by (simp add: parse_loop_content init_sections_def split_def comp_def)
  then have "parse doc =
      map (\<lambda>k. (k, strip (join_nl (section_content k None ?ls))))
        (filter (\<lambda>k. section_content k None ?ls \<noteq> []) (map fst SECTION_PATTERNS))"
    by (simp add: parse_def filter_map comp_def)
  also have "\<dots> = map (\<lambda>k. (k, join_nl (section_content k None ?ls)))
        (filter (\<lambda>k. section_content k None ?ls \<noteq> []) (map fst SECTION_PATTERNS))"
    by (rule map_cong) (auto simp: strip)
  finally show ?thesis .
qed


lemma parse_line_keeps_truthy: "fst st \<noteq> Some [] \<Longrightarrow> fst (parse_line st line) \<noteq> Some []"
  using first_match_nonempty [of "lower (strip line)"]
  by (auto simp: parse_line_def Let_def split: option.splits)

lemma parse_loop_keeps_truthy: "fst st \<noteq> Some [] \<Longrightarrow> fst (parse_loop st ls) \<noteq> Some []"
  by (induction ls arbitrary: st) (simp_all add: parse_loop_def parse_line_keeps_truthy)

lemma parse_loop_append: "parse_loop st (ls1 @ ls2) = parse_loop (parse_loop st ls1) ls2"
  by (simp add: parse_loop_def)

lemma section_content_no_heading:
  "\<forall>line \<in> set ls. first_match SECTION_PATTERNS (lower (strip line)) = None \<Longrightarrow>
   section_content k None ls = []"
  by (induction ls) simp_all

lemma first_match_first_index:
  "i < length ps \<Longrightarrow> re_search (snd (ps ! i)) s \<Longrightarrow> \<forall>j<i. \<not> re_search (snd (ps ! j)) s \<Longrightarrow>
   first_match ps s = Some (fst (ps ! i))"
proof (induction ps arbitrary: i)
  case Nil
  then show ?case by simp
next
  case (Cons p ps)
  obtain key pat where p: "p = (key, pat)" by (cases p)
  show ?case
  proof (cases i)
    case 0
    with Cons.prems p show ?thesis by simp
  next
    case (Suc n)
    with Cons.prems have "\<not> re_search (snd ((p # ps) ! 0)) s" by blast
    moreover have "first_match ps s = Some (fst (ps ! n))"
    proof (rule Cons.IH)
      show "n < length ps" using Cons.prems(1) Suc by simp
      show "re_search (snd (ps ! n)) s" using Cons.prems(2) Suc by simp
      show "\<forall>j<n. \<not> re_search (snd (ps ! j)) s"
      proof (intro allI impI)
        fix j assume "j < n"
        then have "Suc j < i" using Suc by simp
        with Cons.prems(3) have "\<not> re_search (snd ((p # ps) ! Suc j)) s" by blast
        then show "\<not> re_search (snd (ps ! j)) s" by simp
      qed
    qed
    ultimately show ?thesis using p Suc by simp
  qed
qed

lemma first_match_None_iff:
  "first_match ps s = None \<longleftrightarrow> (\<forall>p \<in> set ps. \<not> re_search (snd p) s)"
  by (induction ps s rule: first_match.induct) auto

text \<open>
  Claim C6, as amended. A line that is empty after trimming is skipped: the state is
  unchanged. For every other line, the trimmed, lower-cased line is tested against
  the section patterns in their declared order: when pattern \<open>i\<close> matches and none
  before it does, the current section becomes section \<open>i\<close> and the accumulators are
  unchanged (the heading is not stored, and of two patterns that match, the earlier
  wins); when no pattern matches, the trimmed line is appended to the accumulator of
  the current section and to no other, or dropped when no section is active yet.
\<close>

theorem parse_line_classifies:
  "(strip line = [] \<longrightarrow> parse_line (cur, secs) line = (cur, secs))
   \<and> (strip line \<noteq> [] \<and> i < length SECTION_PATTERNS
        \<and> re_search (snd (SECTION_PATTERNS ! i)) (lower (strip line))
        \<and> (\<forall>j<i. \<not> re_search (snd (SECTION_PATTERNS ! j)) (lower (strip line)))
      \<longrightarrow> parse_line (cur, secs) line = (Some (fst (SECTION_PATTERNS ! i)), secs))
   \<and> (strip line \<noteq> []
        \<and> (\<forall>p \<in> set SECTION_PATTERNS. \<not> re_search (snd p) (lower (strip line)))
        \<and> cur = Some c \<and> c \<noteq> []
      \<longrightarrow> parse_line (cur, secs) line
            = (cur, map (\<lambda>(k, v). if k = c then (k, v @ [strip line]) else (k, v)) secs))
   \<and> (strip line \<noteq> []
        \<and> (\<forall>p \<in> set SECTION_PATTERNS. \<not> re_search (snd p) (lower (strip line)))
        \<and> cur = None
      \<longrightarrow> parse_line (cur, secs) line = (cur, secs))"
proof (intro conjI impI)
  assume "strip line = []"
  then show "parse_line (cur, secs) line = (cur, secs)" by (simp add: parse_line_def)
next
  assume a: "strip line \<noteq> [] \<and> i < length SECTION_PATTERNS
        \<and> re_search (snd (SECTION_PATTERNS ! i)) (lower (strip line))
        \<and> (\<forall>j<i. \<not> re_search (snd (SECTION_PATTERNS ! j)) (lower (strip line)))"
  then have "first_match SECTION_PATTERNS (lower (strip line)) = Some (fst (SECTION_PATTERNS ! i))"
    by (intro first_match_first_index) simp_all
  with a show "parse_line (cur, secs) line = (Some (fst (SECTION_PATTERNS ! i)), secs)"
    by (simp add: parse_line_def)
next
  assume a: "strip line \<noteq> []
        \<and> (\<forall>p \<in> set SECTION_PATTERNS. \<not> re_search (snd p) (lower (strip line)))
        \<and> cur = Some c \<and> c \<noteq> []"
  then have "first_match SECTION_PATTERNS (lower (strip line)) = None"
    by (simp add: first_match_None_iff)
  with a show "parse_line (cur, secs) line
            = (cur, map (\<lambda>(k, v). if k = c then (k, v @ [strip line]) else (k, v)) secs)"
    by (simp add: parse_line_def append_line_def)
next
  assume a: "strip line \<noteq> []
        \<and> (\<forall>p \<in> set SECTION_PATTERNS. \<not> re_search (snd p) (lower (strip line)))
        \<and> cur = None"
  then have "first_match SECTION_PATTERNS (lower (strip line)) = None"
    by (simp add: first_match_None_iff)
  with a show "parse_line (cur, secs) line = (cur, secs)"
    by (simp add: parse_line_def)
qed

theorem parse_line_classifies_witness:
  "strip ''  Education & Work History '' \<noteq> [] \<and> 0 < length SECTION_PATTERNS
   \<and> re_search (snd (SECTION_PATTERNS ! 0)) (lower (strip ''  Education & Work History ''))
   \<and> re_search (snd (SECTION_PATTERNS ! 1)) (lower (strip ''  Education & Work History ''))
   \<and> parse_line (Some ''skills'', init_sections) ''  Education & Work History ''
       = (Some ''experience'', init_sections)
   \<and> strip '' Python, C++ '' = ''Python, C++''
   \<and> list_all (\<lambda>p. \<not> re_search (snd p) (lower (strip '' Python, C++ ''))) SECTION_PATTERNS
   \<and> parse_line (Some ''skills'', init_sections) '' Python, C++ ''
       = (Some ''skills'',
          [(''experience'', []), (''education'', []), (''skills'', [''Python, C++'']),
           (''projects'', []), (''leadership & awards'', [])])
   \<and> parse_line (None, init_sections) '' Python, C++ '' = (None, init_sections)
   \<and> strip ''   '' = []
   \<and> parse_line (Some ''skills'', init_sections) ''   '' = (Some ''skills'', init_sections)"
proof -
  let ?h = "''  Education & Work History ''"
  let ?c = "'' Python, C++ ''"
  have h: "strip ?h \<noteq> [] \<and> 0 < length SECTION_PATTERNS
      \<and> re_search (snd (SECTION_PATTERNS ! 0)) (lower (strip ?h))
      \<and> (\<forall>j<0. \<not> re_search (snd (SECTION_PATTERNS ! j)) (lower (strip ?h)))"
    by code_simp
  have k: "re_search (snd (SECTION_PATTERNS ! 1)) (lower (strip ?h))"
    by code_simp
  have n: "fst (SECTION_PATTERNS ! 0) = ''experience''" by code_simp
  from parse_line_classifies [of ?h "Some ''skills''" init_sections 0] h n
  have 1: "parse_line (Some ''skills'', init_sections) ?h = (Some ''experience'', init_sections)"
    by simp
  have s: "strip ?c = ''Python, C++''" by code_simp
  have sn: "strip ?c \<noteq> []" by code_simp
  have m: "list_all (\<lambda>p. \<not> re_search (snd p) (lower (strip ?c))) SECTION_PATTERNS"
    by code_simp
  then have m': "\<forall>p \<in> set SECTION_PATTERNS. \<not> re_search (snd p) (lower (strip ?c))"
    by (simp only: list_all_iff)
  have e: "map (\<lambda>(k, v). if k = ''skills'' then (k, v @ [strip ?c]) else (k, v)) init_sections
        = [(''experience'', []), (''education'', []), (''skills'', [''Python, C++'']),
           (''projects'', []), (''leadership & awards'', [])]"
    by code_simp
  from parse_line_classifies [of ?c "Some ''skills''" init_sections 0 "''skills''"] sn m'
  have "parse_line (Some ''skills'', init_sections) ?c
       = (Some ''skills'',
          map (\<lambda>(k, v). if k = ''skills'' then (k, v @ [strip ?c]) else (k, v)) init_sections)"
    by blast
  then have 2: "parse_line (Some ''skills'', init_sections) ?c
       = (Some ''skills'',
          [(''experience'', []), (''education'', []), (''skills'', [''Python, C++'']),
           (''projects'', []), (''leadership & awards'', [])])"
    by (simp only: e)
  from parse_line_classifies [of ?c None init_sections 0] sn m'
  have 3: "parse_line (None, init_sections) ?c = (None, init_sections)"
    by blast
  have b: "strip ''   '' = []" by code_simp
  from parse_line_classifies [of "''   ''" "Some ''skills''" init_sections 0] b
  have 4: "parse_line (Some ''skills'', init_sections) ''   '' = (Some ''skills'', init_sections)"
    by blast
  from h k 1 s m 2 3 b 4 show ?thesis by blast
qed

text \<open>
  The claim as first stated, "a non-matching line is appended to the current section's
  accumulator", fails on a blank line: it matches no pattern, a section is active,
  and nothing is appended.
\<close>

theorem parse_line_blank_counterexample:
  "first_match SECTION_PATTERNS (lower (strip ''   '')) = None
   \<and> parse_line (Some ''skills'', init_sections) ''   ''
       \<noteq> (Some ''skills'', append_line init_sections ''skills'' (strip ''   ''))"
  by code_simp

text \<open>
  Claim C7. An entry \<open>(k, v)\<close> of the mapping that \<open>parse\<close> returns has a text \<open>v\<close>
  that is not empty, and section \<open>k\<close> was assigned at least one content line: its
  accumulator at the end of the loop is the non-empty list of its content lines.
  A document none of whose lines is a heading yields the empty mapping.
\<close>

theorem parse_omits_empty_sections:
  "((k, v) \<in> set (parse doc) \<longrightarrow>
      v \<noteq> [] \<and> section_content k None (splitlines doc) \<noteq> []
      \<and> (k, section_content k None (splitlines doc))
           \<in> set (snd (parse_loop (None, init_sections) (splitlines doc))))
   \<and> ((\<forall>line \<in> set (splitlines doc).
          first_match SECTION_PATTERNS (lower (strip line)) = None) \<longrightarrow> parse doc = [])"
proof (intro conjI impI)
  let ?c = "\<lambda>k. section_content k None (splitlines doc)"
  assume "(k, v) \<in> set (parse doc)"
  then have k: "k \<in> fst ` set SECTION_PATTERNS" and c: "?c k \<noteq> []" and v: "v = join_nl (?c k)"
    by (auto simp: parse_eq)
  have "trimmed (join_nl (?c k))"
    using c by (simp add: join_nl_trimmed section_content_trimmed)
  then show "v \<noteq> []" using v by (simp add: trimmed_def)
  show "?c k \<noteq> []" by (rule c)
  have "snd (parse_loop (None, init_sections) (splitlines doc))
          = map (\<lambda>k. (k, ?c k)) (map fst SECTION_PATTERNS)"
    by (simp add: parse_loop_content init_sections_def split_def comp_def)
  then show "(k, ?c k) \<in> set (snd (parse_loop (None, init_sections) (splitlines doc)))"
    using k by auto
next
  assume "\<forall>line \<in> set (splitlines doc). first_match SECTION_PATTERNS (lower (strip line)) = None"
  then have "section_content k None (splitlines doc) = []" for k
    by (rule section_content_no_heading)
  then show "parse doc = []" by (simp add: parse_eq)
qed

text \<open>
  Claim C10. The entry of a section in the result is the newline-joined list of all
  its content lines in document order, whatever the number of headings that open the
  section; there is one entry per section. And reading on never resets an
  accumulator: after further lines \<open>ls2\<close>, every accumulator is what it was after
  \<open>ls1\<close> followed by the content lines that \<open>ls2\<close> holds for its section.
\<close>

theorem parse_accumulates_across_headings:
  "parse doc =
     map (\<lambda>k. (k, join_nl (section_content k None (splitlines doc))))
       (filter (\<lambda>k. section_content k None (splitlines doc) \<noteq> []) (map fst SECTION_PATTERNS))
   \<and> (fst st \<noteq> Some [] \<longrightarrow>
        snd (parse_loop st (ls1 @ ls2))
          = map (\<lambda>(k, v). (k, v @ section_content k (fst (parse_loop st ls1)) ls2))
              (snd (parse_loop st ls1)))"
proof (intro conjI impI)
  show "parse doc =
     map (\<lambda>k. (k, join_nl (section_content k None (splitlines doc))))
       (filter (\<lambda>k. section_content k None (splitlines doc) \<noteq> []) (map fst SECTION_PATTERNS))"
    by (rule parse_eq)
next
  assume "fst st \<noteq> Some []"
  then have "fst (parse_loop st ls1) \<noteq> Some []" by (rule parse_loop_keeps_truthy)
  from parse_loop_content [OF this, of "snd (parse_loop st ls1)" ls2]
  show "snd (parse_loop st (ls1 @ ls2))
          = map (\<lambda>(k, v). (k, v @ section_content k (fst (parse_loop st ls1)) ls2))
              (snd (parse_loop st ls1))"
    by (simp add: parse_loop_append)
qed


theorem parse_omits_empty_sections_witness:
  "(''experience'', ''Line one at job'')
      \<in> set (parse (''EXPERIENCE'' @ CHR 0x0A # ''Line one at job'' @ CHR 0x0A # ''SKILLS''))
   \<and> section_content ''experience'' None
         (splitlines (''EXPERIENCE'' @ CHR 0x0A # ''Line one at job'' @ CHR 0x0A # ''SKILLS'')) \<noteq> []
   \<and> list_all (\<lambda>line. first_match SECTION_PATTERNS (lower (strip line)) = None)
         (splitlines ''Just some random text with no section headers at all.'')
   \<and> parse ''Just some random text with no section headers at all.'' = []"
proof -
  let ?d = "''EXPERIENCE'' @ CHR 0x0A # ''Line one at job'' @ CHR 0x0A # ''SKILLS''"
  let ?e = "''Just some random text with no section headers at all.''"
  have h1: "(''experience'', ''Line one at job'') \<in> set (parse ?d)" by code_simp
  have h2: "list_all (\<lambda>line. first_match SECTION_PATTERNS (lower (strip line)) = None)
              (splitlines ?e)"
    by code_simp
  from parse_omits_empty_sections [of "''experience''" "''Line one at job''" ?d] h1
  have c1: "section_content ''experience'' None (splitlines ?d) \<noteq> []" by blast
  from parse_omits_empty_sections [of "''experience''" "''Line one at job''" ?e] h2
  have c2: "parse ?e = []" by (simp add: list_all_iff)
  from h1 h2 c1 c2 show ?thesis by blast
qed

theorem parse_accumulates_across_headings_witness:
  "fst (None :: string option, init_sections) \<noteq> Some []
   \<and> snd (parse_loop (None, init_sections)
            ([''EXPERIENCE'', ''a'', ''EDUCATION'', ''b''] @ [''Work History'', ''c'']))
      = map (\<lambda>(k, v). (k, v @ section_content k
                (fst (parse_loop (None, init_sections) [''EXPERIENCE'', ''a'', ''EDUCATION'', ''b'']))
                [''Work History'', ''c'']))
          (snd (parse_loop (None, init_sections) [''EXPERIENCE'', ''a'', ''EDUCATION'', ''b'']))
   \<and> section_content ''experience''
        (fst (parse_loop (None, init_sections) [''EXPERIENCE'', ''a'', ''EDUCATION'', ''b'']))
        [''Work History'', ''c''] = [''c'']
   \<and> parse (''EXPERIENCE'' @ CHR 0x0A # ''a'' @ CHR 0x0A # ''EDUCATION'' @ CHR 0x0A # ''b''
              @ CHR 0x0A # ''Work History'' @ CHR 0x0A # ''c'')
      = [(''experience'', ''a'' @ CHR 0x0A # ''c''), (''education'', ''b'')]"
proof -
  have h: "fst (None :: string option, init_sections) \<noteq> Some []" by simp
  have c: "section_content ''experience''
        (fst (parse_loop (None, init_sections) [''EXPERIENCE'', ''a'', ''EDUCATION'', ''b'']))
        [''Work History'', ''c''] = [''c'']" by code_simp
  have p: "parse (''EXPERIENCE'' @ CHR 0x0A # ''a'' @ CHR 0x0A # ''EDUCATION'' @ CHR 0x0A # ''b''
              @ CHR 0x0A # ''Work History'' @ CHR 0x0A # ''c'')
      = [(''experience'', ''a'' @ CHR 0x0A # ''c''), (''education'', ''b'')]" by code_simp
  from parse_accumulates_across_headings
         [of _ "(None, init_sections)" "[''EXPERIENCE'', ''a'', ''EDUCATION'', ''b'']"
             "[''Work History'', ''c'']"] h c p
  show ?thesis by blast
qed


section \<open>Properties of the similarity\<close>

lemma dot_commute: "dot u v = dot v u"
proof (induction u arbitrary: v)
  case Nil
  then show ?case by (simp add: dot_def)
next
  case (Cons x u)
  then show ?case by (cases v) (simp_all add: dot_def mult.commute)
qed

lemma dot_self_nonneg: "0 \<le> dot a a"
  by (induction a) (simp_all add: dot_def)

lemma dot_self_Cons: "dot (x # a) (x # a) = x * x + dot a a"
  by (simp add: dot_def)

lemma dot_self_zero_iff: "dot a a = 0 \<longleftrightarrow> (\<forall>x \<in> set a. x = 0)"
proof (induction a)
  case Nil
  show ?case by (simp add: dot_def)
next
  case (Cons x a)
  have "x * x + dot a a = 0 \<longleftrightarrow> x * x = 0 \<and> dot a a = 0"
    using dot_self_nonneg [of a] zero_le_square [of x]
    by (simp add: add_nonneg_eq_0_iff)
  with Cons show ?case by (simp add: dot_self_Cons)
qed

lemma magnitude_zero_iff: "sqrt (dot a a) = 0 \<longleftrightarrow> (\<forall>x \<in> set a. x = 0)"
  by (simp add: dot_self_zero_iff)

lemma cosine_similarity_commute: "cosine_similarity a b = cosine_similarity b a"
  by (simp add: cosine_similarity_def cosine_def dot_commute [of a b] mult.commute)

lemma cosine_similarity_value:
  assumes "length a = length b" "\<exists>x \<in> set a. x \<noteq> 0" "\<exists>y \<in> set b. y \<noteq> 0"
  shows "cosine_similarity a b = Inr (dot a b / (sqrt (dot a a) * sqrt (dot b b)))"
proof -
  have "sqrt (dot a a) \<noteq> 0" "sqrt (dot b b) \<noteq> 0"
    using assms(2,3) magnitude_zero_iff by blast+
  then show ?thesis
    using assms(1) by (simp add: cosine_similarity_def cosine_def)
qed

lemma cosine_similarity_self:
  assumes "\<exists>x \<in> set a. x \<noteq> 0"
  shows "cosine_similarity a a = Inr 1"
proof -
  have nz: "dot a a \<noteq> 0" using assms dot_self_zero_iff by blast
  have "sqrt (dot a a) * sqrt (dot a a) = dot a a"
    using dot_self_nonneg [of a] by simp
  with nz show ?thesis
    using cosine_similarity_value [OF refl assms assms] by simp
qed

text \<open>
  Claim C8. The similarity is symmetric: for two non-zero vectors of equal length,
  \<open>cosine_similarity a b\<close> and \<open>cosine_similarity b a\<close> are the same number. It
  satisfies identity: the similarity of a non-zero vector with itself is 1.
\<close>

theorem cosine_similarity_symmetric_identity:
  "(length a = length b \<and> (\<exists>x \<in> set a. x \<noteq> 0) \<and> (\<exists>y \<in> set b. y \<noteq> 0) \<longrightarrow>
      (\<exists>s. cosine_similarity a b = Inr s \<and> cosine_similarity b a = Inr s))
   \<and> ((\<exists>x \<in> set a. x \<noteq> 0) \<longrightarrow> cosine_similarity a a = Inr 1)"
  using cosine_similarity_value [of a b] cosine_similarity_commute [of a b]
    cosine_similarity_self [of a]
  by metis

theorem cosine_similarity_symmetric_identity_witness:
  "length [3, 4 :: real] = length [4, 3 :: real] \<and> (\<exists>x \<in> set [3, 4 :: real]. x \<noteq> 0)
   \<and> (\<exists>y \<in> set [4, 3 :: real]. y \<noteq> 0)
   \<and> (\<exists>s. cosine_similarity [3, 4] [4, 3] = Inr s \<and> cosine_similarity [4, 3] [3, 4] = Inr s)
   \<and> cosine_similarity [3, 4] [3, 4] = Inr 1"
  using cosine_similarity_symmetric_identity [of "[3, 4]" "[4, 3]"] by simp

section \<open>Properties of rank\_jobs\<close>

text \<open>
  Claim C4. On the empty candidate list \<open>rank_jobs\<close> returns the empty list: it raises
  nothing, the provider's batch method is not called (the record of batch calls is
  what it was), no candidate is touched and no file is written.
\<close>

theorem rank_jobs_empty:
  "snd (rank_jobs hf resume_embedding [] top_n embedding_service output_csv w) = Inr []
   \<and> batch_calls (fst (rank_jobs hf resume_embedding [] top_n embedding_service output_csv w))
       = batch_calls w
   \<and> heap (fst (rank_jobs hf resume_embedding [] top_n embedding_service output_csv w)) = heap w
   \<and> files (fst (rank_jobs hf resume_embedding [] top_n embedding_service output_csv w)) = files w"
  by (simp add: rank_jobs_def)

subsection \<open>Building the embedding inputs\<close>

lemma job_text_complete: "has_text_fields j \<Longrightarrow> job_text j = Inr (joined_text j)"
  by (auto simp: has_text_fields_def job_text_def joined_text_def)

lemma job_text_incomplete:
  "\<not> has_text_fields j \<Longrightarrow>
   job_text j \<in> {Inl (KeyError ''title''), Inl (KeyError ''company''), Inl (KeyError ''description'')}"
  by (auto simp: has_text_fields_def job_text_def split: option.splits)

lemma job_text_cases:
  "job_text j = Inr (joined_text j) \<and> has_text_fields j
   \<or> job_text j \<in> {Inl (KeyError ''title''), Inl (KeyError ''company''), Inl (KeyError ''description'')}
     \<and> \<not> has_text_fields j"
  using job_text_complete job_text_incomplete by blast

lemma build_job_texts_complete:
  "\<forall>j \<in> set jobs. has_text_fields (h j) \<Longrightarrow>
   build_job_texts h jobs = Inr (map (\<lambda>j. joined_text (h j)) jobs)"
  by (induction jobs) (simp_all add: job_text_complete)

lemma build_job_texts_incomplete:
  "\<exists>j \<in> set jobs. \<not> has_text_fields (h j) \<Longrightarrow>
   build_job_texts h jobs
     \<in> {Inl (KeyError ''title''), Inl (KeyError ''company''), Inl (KeyError ''description'')}"
proof (induction jobs)
  case Nil
  then show ?case by simp
next
  case (Cons j jobs)
  show ?case
  proof (cases "has_text_fields (h j)")
    case False
    from job_text_incomplete [OF this] show ?thesis by auto
  next
    case True
    with Cons.prems have "\<exists>j \<in> set jobs. \<not> has_text_fields (h j)" by simp
    from Cons.IH [OF this] show ?thesis
      using job_text_complete [OF True] by auto
  qed
qed

lemma build_job_texts_Inr:
  "build_job_texts h jobs = Inr texts \<Longrightarrow>
   (\<forall>j \<in> set jobs. has_text_fields (h j)) \<and> texts = map (\<lambda>j. joined_text (h j)) jobs"
  using build_job_texts_incomplete [of jobs h] build_job_texts_complete [of jobs h]
  by (cases "\<forall>j \<in> set jobs. has_text_fields (h j)") auto

subsection \<open>The scoring loop\<close>

lemma score_jobs_text_fields:
  "score_jobs r ps h = (h', f) \<Longrightarrow> text_fields (h' j) = text_fields (h j)"
  by (induction r ps h rule: score_jobs.induct) (auto split: sum.splits)

lemma score_jobs_frame:
  "score_jobs r ps h = (h', f) \<Longrightarrow> j \<notin> fst ` set ps \<Longrightarrow> h' j = h j"
  by (induction r ps h rule: score_jobs.induct) (auto split: sum.splits)

lemma score_jobs_scored:
  "score_jobs r ps h = (h', None) \<Longrightarrow> j \<in> fst ` set ps \<Longrightarrow> similarity_score (h' j) \<noteq> None"
proof (induction r ps h rule: score_jobs.induct)
  case (1 r h)
  then show ?case by simp
next
  case (2 r i emb rest h)
  from "2.prems"(1) obtain s where s: "cosine_similarity r emb = Inr s"
    and rec: "score_jobs r rest (h(i := (h i)\<lparr>similarity_score := Some s\<rparr>)) = (h', None)"
    by (auto split: sum.splits)
  show ?case
  proof (cases "j \<in> fst ` set rest")
    case True
    from "2.IH" [OF s rec True] show ?thesis .
  next
    case False
    with "2.prems"(2) have "j = i" by auto
    with score_jobs_frame [OF rec False] show ?thesis by simp
  qed
qed

lemma score_jobs_value:
  "score_jobs r ps h = (h', None) \<Longrightarrow> distinct (map fst ps) \<Longrightarrow> (j, emb) \<in> set ps \<Longrightarrow>
   cosine_similarity r emb = Inr (the (similarity_score (h' j)))"
proof (induction r ps h rule: score_jobs.induct)
  case (1 r h)
  then show ?case by simp
next
  case (2 r i e rest h)
  from "2.prems"(1) obtain s where s: "cosine_similarity r e = Inr s"
    and rec: "score_jobs r rest (h(i := (h i)\<lparr>similarity_score := Some s\<rparr>)) = (h', None)"
    by (auto split: sum.splits)
  from "2.prems"(2) have d: "distinct (map fst rest)" and ni: "i \<notin> fst ` set rest" by auto
  show ?case
  proof (cases "(j, emb) \<in> set rest")
    case True
    from "2.IH" [OF s rec d True] show ?thesis .
  next
    case False
    with "2.prems"(3) have "j = i" "emb = e" by auto
    with score_jobs_frame [OF rec ni] s show ?thesis by simp
  qed
qed



subsection \<open>Sorting and slicing\<close>

lemma sorted_reverse_mset: "mset (sorted_reverse key xs) = mset xs"
  by (simp add: sorted_reverse_def)





lemma set_slice_to: "set (slice_to xs n) \<subseteq> set xs"
  by (auto simp: slice_to_def dest: in_set_takeD)

lemma sorted_by_score_Inr:
  "sorted_by_score h js = Inr ranked \<Longrightarrow>
   (\<forall>j \<in> set js. similarity_score (h j) \<noteq> None)
   \<and> ranked = sorted_reverse (\<lambda>j. the (similarity_score (h j))) js"
  by (auto simp: sorted_by_score_def list_ex_iff split: if_splits)

lemma sorted_by_score_Inl:
  "sorted_by_score h js = Inl e \<Longrightarrow> e = KeyError ''similarity_score''"
  by (auto simp: sorted_by_score_def split: if_splits)


subsection \<open>The shape of a run\<close>

lemma rank_jobs_Inr:
  assumes "rank_jobs hf r jobs n svc out w = (w', Inr res)" "jobs \<noteq> []"
  obtains texts h ranked where
    "build_job_texts (heap w) jobs = Inr texts"
    "score_jobs r (zip jobs ((case svc of None \<Rightarrow> hf | Some s \<Rightarrow> s) texts)) (heap w) = (h, None)"
    "sorted_by_score h jobs = Inr ranked"
    "res = slice_to ranked n"
    "w' = save_jobs (map h res) out (w\<lparr>batch_calls := batch_calls w @ [texts], heap := h\<rparr>)"
  using assms
  by (auto simp: rank_jobs_def Let_def split: sum.splits option.splits prod.splits)

lemmas eval_defs = rank_jobs_def example_world_def example_job_def example_service_def
  job_text_def MockEmbeddingService_def cosine_similarity_def cosine_def dot_def
  sorted_by_score_def sorted_reverse_def slice_to_def save_jobs_def


subsection \<open>Results of a run\<close>

lemma heap_save_jobs: "heap (save_jobs rows out w) = heap w"
  by (simp add: save_jobs_def)

lemma batch_calls_save_jobs: "batch_calls (save_jobs rows out w) = batch_calls w"
  by (simp add: save_jobs_def)

lemma files_save_jobs:
  "files (save_jobs rows out w) = (if rows = [] then files w else (files w)(out \<mapsto> rows))"
  by (simp add: save_jobs_def)

lemma rank_jobs_Inr_heap:
  assumes "rank_jobs hf r jobs n svc out w = (w', Inr res)" "jobs \<noteq> []"
  obtains texts where
    "build_job_texts (heap w) jobs = Inr texts"
    "score_jobs r (zip jobs ((case svc of None \<Rightarrow> hf | Some s \<Rightarrow> s) texts)) (heap w)
       = (heap w', None)"
    "sorted_by_score (heap w') jobs = Inr (sorted_reverse (\<lambda>j. the (similarity_score (heap w' j))) jobs)"
    "\<forall>j \<in> set jobs. similarity_score (heap w' j) \<noteq> None"
    "res = slice_to (sorted_reverse (\<lambda>j. the (similarity_score (heap w' j))) jobs) n"
    "files w' = (if res = [] then files w else (files w)(out \<mapsto> map (heap w') res))"
    "batch_calls w' = batch_calls w @ [texts]"
proof -
  from assms obtain texts h ranked where
    1: "build_job_texts (heap w) jobs = Inr texts"
    and 2: "score_jobs r (zip jobs ((case svc of None \<Rightarrow> hf | Some s \<Rightarrow> s) texts)) (heap w) = (h, None)"
    and 3: "sorted_by_score h jobs = Inr ranked"
    and 4: "res = slice_to ranked n"
    and 5: "w' = save_jobs (map h res) out (w\<lparr>batch_calls := batch_calls w @ [texts], heap := h\<rparr>)"
    by (rule rank_jobs_Inr)
  from 5 have h: "heap w' = h" by (simp add: heap_save_jobs)
  from 5 have f: "files w' = (if res = [] then files w else (files w)(out \<mapsto> map h res))"
    by (simp add: files_save_jobs)
  from 5 have b: "batch_calls w' = batch_calls w @ [texts]" by (simp add: batch_calls_save_jobs)
  from sorted_by_score_Inr [OF 3] 1 2 3 4 f b h that show ?thesis by simp
qed



lemma rank_jobs_nil: "rank_jobs hf r [] n svc out w = (w\<lparr>printed := printed w @ [NoJobsToRank]\<rparr>, Inr [])"
  by (simp add: rank_jobs_def)

lemma rank_jobs_Inl_files:
  "rank_jobs hf r jobs n svc out w = (w', Inl e) \<Longrightarrow> files w' = files w"
  by (auto simp: rank_jobs_def Let_def split: if_splits sum.splits option.splits prod.splits)

lemma map_fst_zip_le:
  "map fst (zip xs ys) = take (length ys) xs"
  by (simp add: map_fst_zip_take min_def)

text \<open>
  Claim C9. When \<open>rank_jobs\<close> returns, every candidate of the input list has a
  \<open>similarity_score\<close> in the store, whether it is among the returned ones or not;
  the returned references are references of the input list (the same dicts, no
  copies); no text field of any dict has changed and no dict outside the list has
  changed; and when the list has no dict twice, the score left on candidate \<open>i\<close> is
  the similarity of the resume embedding and the \<open>i\<close>-th vector of the batch.
\<close>

theorem rank_jobs_scores_in_place:
  assumes "rank_jobs hf resume_embedding jobs top_n embedding_service output_csv w = (w', Inr res)"
  shows "(\<forall>j \<in> set jobs. similarity_score (heap w' j) \<noteq> None)
       \<and> set res \<subseteq> set jobs
       \<and> (\<forall>j. text_fields (heap w' j) = text_fields (heap w j))
       \<and> (\<forall>j. j \<notin> set jobs \<longrightarrow> heap w' j = heap w j)
       \<and> (distinct jobs \<longrightarrow>
            (\<forall>i < min (length jobs)
                     (length ((case embedding_service of None \<Rightarrow> hf | Some s \<Rightarrow> s)
                                (map (\<lambda>j. joined_text (heap w j)) jobs))).
               cosine_similarity resume_embedding
                  ((case embedding_service of None \<Rightarrow> hf | Some s \<Rightarrow> s)
                     (map (\<lambda>j. joined_text (heap w j)) jobs) ! i)
                 = Inr (the (similarity_score (heap w' (jobs ! i))))))"
proof (cases "jobs = []")
  case True
  with assms show ?thesis by (auto simp: rank_jobs_nil)
next
  case False
  let ?service = "case embedding_service of None \<Rightarrow> hf | Some s \<Rightarrow> s"
  let ?key = "\<lambda>j. the (similarity_score (heap w' j))"
  from assms False obtain texts where
    texts: "build_job_texts (heap w) jobs = Inr texts"
    and score: "score_jobs resume_embedding (zip jobs (?service texts)) (heap w) = (heap w', None)"
    and scored: "\<forall>j \<in> set jobs. similarity_score (heap w' j) \<noteq> None"
    and res: "res = slice_to (sorted_reverse ?key jobs) top_n"
    by (rule rank_jobs_Inr_heap)
  from build_job_texts_Inr [OF texts]
  have t: "texts = map (\<lambda>j. joined_text (heap w j)) jobs" by simp
  let ?embs = "?service (map (\<lambda>j. joined_text (heap w j)) jobs)"
  from score t have score': "score_jobs resume_embedding (zip jobs ?embs) (heap w) = (heap w', None)"
    by simp
  have "set (sorted_reverse ?key jobs) = set jobs"
    using sorted_reverse_mset [of ?key jobs] by (rule mset_eq_setD)
  then have sub: "set res \<subseteq> set jobs" using res set_slice_to [of "sorted_reverse ?key jobs" top_n] by simp
  have tf: "\<forall>j. text_fields (heap w' j) = text_fields (heap w j)"
    using score_jobs_text_fields [OF score'] by simp
  have fr: "\<forall>j. j \<notin> set jobs \<longrightarrow> heap w' j = heap w j"
  proof (intro allI impI)
    fix j assume "j \<notin> set jobs"
    then have "j \<notin> fst ` set (zip jobs ?embs)" by (auto dest: set_zip_leftD)
    with score' show "heap w' j = heap w j" by (rule score_jobs_frame)
  qed
  have val: "distinct jobs \<longrightarrow> (\<forall>i < min (length jobs) (length ?embs).
       cosine_similarity resume_embedding (?embs ! i) = Inr (?key (jobs ! i)))"
  proof (intro impI allI)
    fix i assume d: "distinct jobs" and i: "i < min (length jobs) (length ?embs)"
    have "distinct (map fst (zip jobs ?embs))"
      using d by (simp add: map_fst_zip_le)
    moreover have "(jobs ! i, ?embs ! i) \<in> set (zip jobs ?embs)"
      using i by (auto simp: set_zip)
    ultimately show "cosine_similarity resume_embedding (?embs ! i) = Inr (?key (jobs ! i))"
      using score' by (intro score_jobs_value)
  qed
  from scored sub tf fr val show ?thesis by blast
qed

theorem rank_jobs_scores_in_place_witness:
  "snd (rank_jobs MockEmbeddingService [1, 0, 0] [0, 1, 2] 1 (Some example_service)
          ''ranked_jobs.csv'' example_world) = Inr [1]
   \<and> similarity_score (heap example_world 0) = None
   \<and> similarity_score (heap (fst (rank_jobs MockEmbeddingService [1, 0, 0] [0, 1, 2] 1
          (Some example_service) ''ranked_jobs.csv'' example_world)) 0) \<noteq> None
   \<and> similarity_score (heap (fst (rank_jobs MockEmbeddingService [1, 0, 0] [0, 1, 2] 1
          (Some example_service) ''ranked_jobs.csv'' example_world)) 2) = Some 1"
proof -
  let ?R = "rank_jobs MockEmbeddingService [1, 0, 0] [0, 1, 2] 1 (Some example_service)
              ''ranked_jobs.csv'' example_world"
  have s: "snd ?R = Inr [1]" by (simp add: eval_defs)
  then have "?R = (fst ?R, Inr [1])" by (metis prod.collapse)
  from rank_jobs_scores_in_place [OF this]
  have "\<forall>j \<in> set [0, 1, 2]. similarity_score (heap (fst ?R) j) \<noteq> None" by blast
  then have a: "similarity_score (heap (fst ?R) 0) \<noteq> None" by simp
  have b: "similarity_score (heap example_world 0) = None"
    by (simp add: example_world_def example_job_def)
  have c: "similarity_score (heap (fst ?R) 2) = Some 1" by (simp add: eval_defs)
  from s a b c show ?thesis by blast
qed

text \<open>
  Claim C5, as amended. \<open>rank_jobs\<close> itself persists its result: when it returns a
  non-empty list, the file \<open>output_csv\<close> holds exactly the returned records with their
  scores, and every other file is as before; when it returns the empty list or
  raises, no file is written.
\<close>

theorem rank_jobs_writes_result:
  "files (fst (rank_jobs hf resume_embedding jobs top_n embedding_service output_csv w))
     = (case snd (rank_jobs hf resume_embedding jobs top_n embedding_service output_csv w) of
          Inl e \<Rightarrow> files w
        | Inr res \<Rightarrow>
            if res = [] then files w
            else (files w)(output_csv \<mapsto>
                   map (heap (fst (rank_jobs hf resume_embedding jobs top_n embedding_service
                                     output_csv w))) res))"
proof -
  let ?R = "rank_jobs hf resume_embedding jobs top_n embedding_service output_csv w"
  show ?thesis
  proof (cases "snd ?R")
    case (Inl e)
    then have "?R = (fst ?R, Inl e)" by (metis prod.collapse)
    from rank_jobs_Inl_files [OF this] Inl show ?thesis by simp
  next
    case (Inr res)
    then have R: "?R = (fst ?R, Inr res)" by (metis prod.collapse)
    show ?thesis
    proof (cases "jobs = []")
      case True
      then show ?thesis by (simp add: rank_jobs_nil)
    next
      case False
      from R False
      have "files (fst ?R) = (if res = [] then files w
                              else (files w)(output_csv \<mapsto> map (heap (fst ?R)) res))"
        by (rule rank_jobs_Inr_heap)
      with Inr show ?thesis by simp
    qed
  qed
qed

text \<open>
  The claim as first stated, that \<open>rank_jobs\<close> performs no persistence, fails: with two
  candidates and \<open>top_n = 1\<close> the file \<open>ranked_jobs.csv\<close>, absent before the call,
  holds the top candidate after it.
\<close>

theorem rank_jobs_writes_result_counterexample:
  "files example_world ''ranked_jobs.csv'' = None
   \<and> files (fst (rank_jobs MockEmbeddingService [1, 0, 0] [0, 1] 1 None ''ranked_jobs.csv''
                   example_world)) ''ranked_jobs.csv''
       = Some [(example_job ''Job1'' ''A'' ''desc1'')\<lparr>similarity_score := Some 1\<rparr>]"
  by (simp add: eval_defs)






lemma zip_take_surplus: "zip xs (take (length xs) ys) = zip xs ys"
proof (induction xs arbitrary: ys)
  case Nil
  show ?case by simp
next
  case (Cons x xs)
  then show ?case by (cases ys) simp_all
qed





subsection \<open>Returning\<close>

lemma score_jobs_succeeds:
  "\<forall>p \<in> set ps. \<exists>s. cosine_similarity r (snd p) = Inr s \<Longrightarrow> \<exists>h'. score_jobs r ps h = (h', None)"
proof (induction ps arbitrary: h)
  case Nil
  show ?case by simp
next
  case (Cons p ps)
  obtain j emb where p: "p = (j, emb)" by (cases p)
  from Cons.prems p obtain s where s: "cosine_similarity r emb = Inr s" by auto
  from Cons.prems have "\<forall>p \<in> set ps. \<exists>s. cosine_similarity r (snd p) = Inr s" by simp
  from Cons.IH [OF this, of "h(j := (h j)\<lparr>similarity_score := Some s\<rparr>)"]
  obtain h' where "score_jobs r ps (h(j := (h j)\<lparr>similarity_score := Some s\<rparr>)) = (h', None)"
    by blast
  with p s have "score_jobs r (p # ps) h = (h', None)" by simp
  then show ?case by blast
qed

text \<open>
  Under the provider's contract the call returns: with complete candidates, a batch
  result of at least one vector per candidate, vectors of the dimension of the resume
  embedding and none of them zero, \<open>rank_jobs\<close> raises nothing.
\<close>

lemma rank_jobs_returns:
  assumes fields: "\<forall>j \<in> set jobs. has_text_fields (heap w j)"
    and emb: "job_embeddings = (case embedding_service of None \<Rightarrow> hf | Some s \<Rightarrow> s)
                                  (map (\<lambda>j. joined_text (heap w j)) jobs)"
    and len: "length jobs \<le> length job_embeddings"
    and dims: "\<forall>e \<in> set (take (length jobs) job_embeddings).
                 length e = length resume_embedding \<and> (\<exists>x \<in> set e. x \<noteq> 0)"
    and nz: "\<exists>x \<in> set resume_embedding. x \<noteq> 0"
  shows "\<exists>w' res. rank_jobs hf resume_embedding jobs top_n embedding_service output_csv w
                    = (w', Inr res)"
proof (cases "jobs = []")
  case True
  then show ?thesis by (simp add: rank_jobs_def)
next
  case False
  let ?texts = "map (\<lambda>j. joined_text (heap w j)) jobs"
  have texts: "build_job_texts (heap w) jobs = Inr ?texts"
    using fields by (rule build_job_texts_complete)
  have "\<forall>p \<in> set (zip jobs job_embeddings). \<exists>s. cosine_similarity resume_embedding (snd p) = Inr s"
  proof
    fix p assume p: "p \<in> set (zip jobs job_embeddings)"
    then have "snd p \<in> set (take (length jobs) job_embeddings)"
      by (metis zip_take_surplus in_set_zipE prod.collapse)
    with dims have "length (snd p) = length resume_embedding" "\<exists>x \<in> set (snd p). x \<noteq> 0"
      by blast+
    with nz show "\<exists>s. cosine_similarity resume_embedding (snd p) = Inr s"
      using cosine_similarity_value [of resume_embedding "snd p"] by simp
  qed
  then obtain h where sc: "score_jobs resume_embedding (zip jobs job_embeddings) (heap w) = (h, None)"
    using score_jobs_succeeds by blast
  have "fst ` set (zip jobs job_embeddings) = set jobs"
    using len map_fst_zip_le [of jobs job_embeddings] by (metis set_map take_all)
  then have "\<forall>j \<in> set jobs. similarity_score (h j) \<noteq> None"
    using score_jobs_scored [OF sc] by blast
  then have "\<exists>ranked. sorted_by_score h jobs = Inr ranked"
    by (auto simp: sorted_by_score_def list_ex_iff)
  then obtain ranked where "sorted_by_score h jobs = Inr ranked" by blast
  with texts sc emb False show ?thesis by (simp add: rank_jobs_def Let_def)
qed

end
